theory Spec2Isabelle
  imports Complex_Main "HOL-Library.Multiset"
begin


section \<open>MaterialCenterModal: the reducer\<close>

text \<open>
  \<^verbatim>\<open>frontend/src/components/shared/MaterialCenterModal.tsx\<close>. A \<^verbatim>\<open>Material\<close> is
  read through its \<^verbatim>\<open>id\<close>, its \<^verbatim>\<open>url\<close> and the name fields of \<^verbatim>\<open>displayName\<close>; a
  \<^verbatim>\<open>Project\<close> through the fields of \<^verbatim>\<open>projectLabel\<close>. A JavaScript \<^verbatim>\<open>Set<string>\<close>
  is a set of strings.
\<close>

record material =
  m_id :: string
  m_url :: string
  m_prompt :: "string option"
  m_name :: "string option"
  m_original_filename :: "string option"
  m_source_filename :: "string option"
  m_filename :: "string option"

record project =
  project_id :: string
  idea_prompt :: "string option"
  outline_text :: "string option"

record preview_t =
  pv_url :: string
  pv_label :: string

record state =
  items :: "material list"
  selected :: "string set"
  deleting :: "string set"
  loading :: bool
  uploading :: bool
  downloading :: bool
  filter_v :: string
  projects :: "project list"
  projectsReady :: bool
  showAllProjects :: bool
  preview :: "preview_t option"

datatype action =
    SET_ITEMS "material list"
  | TOGGLE_SELECT string
  | SELECT_ALL "string list"
  | CLEAR_SELECTION
  | SET_LOADING bool
  | SET_UPLOADING bool
  | SET_DOWNLOADING bool
  | SET_FILTER string
  | SET_PROJECTS "project list"
  | EXPAND_PROJECTS
  | REMOVE_ITEM string
  | ADD_DELETING string
  | REMOVE_DELETING string
  | SET_PREVIEW "preview_t option"
  | RESET_EPHEMERAL

definition initial :: state where
  "initial = \<lparr> items = [], selected = {}, deleting = {}, loading = False,
               uploading = False, downloading = False, filter_v = ''all'',
               projects = [], projectsReady = False, showAllProjects = False,
               preview = None \<rparr>"

fun reducer :: "state \<Rightarrow> action \<Rightarrow> state" where
  "reducer s (SET_ITEMS its) = s\<lparr> items := its, loading := False \<rparr>"
| "reducer s (TOGGLE_SELECT k) =
     (let next = selected s;
          next = (if k \<in> next then next - {k} else insert k next)
      in s\<lparr> selected := next \<rparr>)"
| "reducer s (SELECT_ALL ks) = s\<lparr> selected := set ks \<rparr>"
| "reducer s CLEAR_SELECTION = s\<lparr> selected := {} \<rparr>"
| "reducer s (SET_LOADING b) = s\<lparr> loading := b \<rparr>"
| "reducer s (SET_UPLOADING b) = s\<lparr> uploading := b \<rparr>"
| "reducer s (SET_DOWNLOADING b) = s\<lparr> downloading := b \<rparr>"
| "reducer s (SET_FILTER v) = s\<lparr> filter_v := v \<rparr>"
| "reducer s (SET_PROJECTS l) = s\<lparr> projects := l, projectsReady := True \<rparr>"
| "reducer s EXPAND_PROJECTS = s\<lparr> showAllProjects := True \<rparr>"
| "reducer s (REMOVE_ITEM k) =
     (let its = filter (\<lambda>m. m_id m \<noteq> k) (items s);
          sel = selected s - {k}
      in s\<lparr> items := its, selected := sel \<rparr>)"
| "reducer s (ADD_DELETING i) = s\<lparr> deleting := insert i (deleting s) \<rparr>"
| "reducer s (REMOVE_DELETING i) = s\<lparr> deleting := deleting s - {i} \<rparr>"
| "reducer s (SET_PREVIEW p) = s\<lparr> preview := p \<rparr>"
| "reducer s RESET_EPHEMERAL = s\<lparr> selected := {}, showAllProjects := False \<rparr>"

text \<open>Two materials and a state used to run the reducer on concrete data.\<close>

definition mat_a :: material where
  "mat_a = \<lparr> m_id = ''a'', m_url = ''/files/a.png'', m_prompt = None, m_name = None,
             m_original_filename = None, m_source_filename = None,
             m_filename = Some ''a.png'' \<rparr>"

definition mat_b :: material where
  "mat_b = \<lparr> m_id = ''b'', m_url = ''/files/b.png'', m_prompt = Some ''a banana'',
             m_name = None, m_original_filename = None, m_source_filename = None,
             m_filename = Some ''b.png'' \<rparr>"

definition busy_state :: state where
  "busy_state = initial\<lparr> items := [mat_a, mat_b, mat_a], selected := {''a'', ''c''},
                          deleting := {''a''}, loading := True, filter_v := ''none'',
                          showAllProjects := True,
                          preview := Some \<lparr> pv_url = ''/files/a.png'', pv_label = ''a.png'' \<rparr> \<rparr>"

section \<open>DetailEditor: the renovation-task poller\<close>

text \<open>
  The \<^verbatim>\<open>useEffect\<close> of \<^verbatim>\<open>DetailEditor\<close> that polls \<^verbatim>\<open>getTaskStatus\<close> for the
  task whose id is stored under \<^verbatim>\<open>renovationTaskId\<close>. The closure variables
  \<^verbatim>\<open>cancelled\<close> and \<^verbatim>\<open>pollFailCount\<close>, the component state it sets, local storage,
  the toasts shown, the navigations made, the calls of \<^verbatim>\<open>syncProject\<close> and the pending
  timer are the fields of one record.
\<close>

datatype msg = Literal string | Translated string

record toast =
  message :: msg
  toast_type :: string

record progress_t =
  progress_total :: "int option"
  progress_completed :: "int option"

record task =
  status :: string
  progress :: "progress_t option"
  error_message :: "string option"

datatype 'a settled = Rejected | Fulfilled 'a

text \<open>
  One run of \<^verbatim>\<open>poll\<close> awaits a call of \<^verbatim>\<open>getTaskStatus\<close> and, when the task is
  \<^verbatim>\<open>COMPLETED\<close>, a call of \<^verbatim>\<open>syncProject\<close>. The first is rejected or fulfilled with a
  response whose \<^verbatim>\<open>data\<close> may be missing; the second is rejected or fulfilled; and the
  effect's cleanup (\<^verbatim>\<open>cancelled = true\<close>) may have run by the time each of them settles.
\<close>

datatype tick =
  Tick (outcome: "task option settled") (unmounted: bool)
       (sync: "unit settled") (unmounted_sync: bool)

record poller =
  cancelled :: bool
  pollFailCount :: nat
  localStorage :: "string \<rightharpoonup> string"
  isRenovationProcessing :: bool
  renovationProgress :: "(int \<times> int) option"
  toasts :: "toast list"
  navigated :: "string list"
  synced :: "string list"
  timer :: "nat option"

definition or0 :: "int option \<Rightarrow> int" where
  "or0 v = (case v of None \<Rightarrow> 0 | Some n \<Rightarrow> n)"

definition or_else :: "string option \<Rightarrow> msg \<Rightarrow> msg" where
  "or_else v d = (case v of None \<Rightarrow> d | Some m \<Rightarrow> if m = [] then d else Literal m)"

text \<open>
  The \<^verbatim>\<open>catch\<close> block of \<^verbatim>\<open>poll\<close>. It runs for every exception of the \<^verbatim>\<open>try\<close> block:
  a rejected \<^verbatim>\<open>getTaskStatus\<close> and a rejected \<^verbatim>\<open>syncProject\<close> alike.
\<close>

definition catch_block :: "poller \<Rightarrow> poller" where
  "catch_block s0 =
     (if cancelled s0 then s0
      else
        let s = s0\<lparr> pollFailCount := pollFailCount s0 + 1 \<rparr>
        in if pollFailCount s \<ge> 5 then
             s\<lparr> localStorage := (localStorage s)(''renovationTaskId'' := None),
                isRenovationProcessing := False,
                renovationProgress := None,
                toasts := toasts s @
                  [\<lparr> message = Translated ''detail.renovationPollFailed'',
                     toast_type = ''error'' \<rparr>],
                navigated := navigated s @ [''/''] \<rparr>
           else s\<lparr> timer := Some 3000 \<rparr>)"

definition poll :: "string \<Rightarrow> tick \<Rightarrow> poller \<Rightarrow> poller" where
  "poll projectId e s0 =
     (let s = s0\<lparr> timer := None \<rparr>;
          s = (if unmounted e then s\<lparr> cancelled := True \<rparr> else s)
      in case outcome e of
           Fulfilled response_data \<Rightarrow>
             if cancelled s then s
             else (case response_data of
                 None \<Rightarrow> s
               | Some task \<Rightarrow>
                   let s = s\<lparr> pollFailCount := 0 \<rparr>;
                       s = (case progress task of
                              None \<Rightarrow> s
                            | Some p \<Rightarrow>
                                s\<lparr> renovationProgress :=
                                     Some (or0 (progress_total p), or0 (progress_completed p)) \<rparr>)
                   in if status task = ''COMPLETED'' then
                        let s = s\<lparr> localStorage :=
                                      (localStorage s)(''renovationTaskId'' := None),
                                    isRenovationProcessing := False,
                                    renovationProgress := None,
                                    synced := synced s @ [projectId] \<rparr>;
                            s = (if unmounted_sync e then s\<lparr> cancelled := True \<rparr> else s)
                        in (case sync e of
                              Fulfilled u \<Rightarrow> s
                            | Rejected \<Rightarrow> catch_block s)
                      else if status task = ''FAILED'' then
                        s\<lparr> localStorage := (localStorage s)(''renovationTaskId'' := None),
                           isRenovationProcessing := False,
                           renovationProgress := None,
                           toasts := toasts s @
                             [\<lparr> message = or_else (error_message task)
                                             (Translated ''detail.renovationFailed''),
                                toast_type = ''error'' \<rparr>],
                           navigated := navigated s @ [''/''] \<rparr>
                      else s\<lparr> timer := Some 2000 \<rparr>)
         | Rejected \<Rightarrow> catch_block s)"

text \<open>
  The body of the effect up to its first call of \<^verbatim>\<open>poll\<close>: nothing happens without a
  project id or without a stored task id; otherwise the processing flag is set, the two
  closure variables are initialised and \<^verbatim>\<open>poll()\<close> is called at once (a timer of 0 ms).
\<close>

definition mount :: "string option \<Rightarrow> poller \<Rightarrow> poller" where
  "mount projectId s =
     (case projectId of
        None \<Rightarrow> s
      | Some pid \<Rightarrow>
          if pid = [] then s
          else (case localStorage s ''renovationTaskId'' of
              None \<Rightarrow> s
            | Some taskId \<Rightarrow>
                if taskId = [] then s
                else s\<lparr> isRenovationProcessing := True, cancelled := False,
                        pollFailCount := 0, timer := Some 0 \<rparr>))"

text \<open>
  \<^verbatim>\<open>poll\<close> runs again only when the previous run left a timer (\<^verbatim>\<open>setTimeout(poll, ...)\<close>);
  each run consumes the outcomes of its own calls.
\<close>

fun run :: "string \<Rightarrow> tick list \<Rightarrow> poller \<Rightarrow> poller" where
  "run projectId [] s = s"
| "run projectId (e # es) s =
     (case timer s of None \<Rightarrow> s | Some delay \<Rightarrow> run projectId es (poll projectId e s))"

text \<open>
  Polling was abandoned when the toast \<^verbatim>\<open>detail.renovationPollFailed\<close> has been shown:
  only the give-up branch of the \<^verbatim>\<open>catch\<close> block shows it.
\<close>

definition abandoned :: "poller \<Rightarrow> bool" where
  "abandoned s \<longleftrightarrow> Translated ''detail.renovationPollFailed'' \<in> set (map message (toasts s))"

text \<open>
  The two failures the \<^verbatim>\<open>catch\<close> block counts, for a poller that is still mounted: a
  failed call of \<^verbatim>\<open>getTaskStatus\<close>, and a failed call of \<^verbatim>\<open>syncProject\<close> after a reply
  that carried a \<^verbatim>\<open>COMPLETED\<close> task.
\<close>

definition call_failed :: "tick \<Rightarrow> bool" where
  "call_failed e \<longleftrightarrow> outcome e = Rejected \<and> \<not> unmounted e"

definition sync_failed :: "tick \<Rightarrow> bool" where
  "sync_failed e \<longleftrightarrow>
     \<not> unmounted e \<and> \<not> unmounted_sync e \<and> sync e = Rejected
     \<and> (case outcome e of
           Fulfilled (Some task) \<Rightarrow> status task = ''COMPLETED''
         | Fulfilled None \<Rightarrow> False
         | Rejected \<Rightarrow> False)"

text \<open>
  The number of consecutive failed calls of \<^verbatim>\<open>getTaskStatus\<close> at the end of a history,
  and the failures since the last reply that carried a task: those calls, and one more
  when the run just before them was a \<^verbatim>\<open>COMPLETED\<close> reply whose \<^verbatim>\<open>syncProject\<close> failed.
\<close>

definition streak :: "tick list \<Rightarrow> nat" where
  "streak es = length (takeWhile call_failed (rev es))"

definition failures :: "tick list \<Rightarrow> nat" where
  "failures es =
     streak es
     + (case dropWhile call_failed (rev es) of
          [] \<Rightarrow> 0
        | e # before \<Rightarrow> if sync_failed e then 1 else 0)"

text \<open>
  What the \<^verbatim>\<open>catch\<close> block does when \<^verbatim>\<open>pollFailCount >= 5\<close>: the stored task id is
  removed, the processing flag and the progress are cleared, the error toast
  \<^verbatim>\<open>detail.renovationPollFailed\<close> is shown, the router goes to \<^verbatim>\<open>/\<close> and no timer is
  set.
\<close>

definition gave_up :: "poller \<Rightarrow> poller" where
  "gave_up s = s\<lparr> timer := None, pollFailCount := 5,
       localStorage := (localStorage s)(''renovationTaskId'' := None),
       isRenovationProcessing := False,
       renovationProgress := None,
       toasts := toasts s @
         [\<lparr> message = Translated ''detail.renovationPollFailed'', toast_type = ''error'' \<rparr>],
       navigated := navigated s @ [''/''] \<rparr>"

text \<open>Calls and a component state used to run the poller on concrete data.\<close>

definition rejected :: tick where
  "rejected = Tick Rejected False (Fulfilled ()) False"

definition still_processing :: tick where
  "still_processing =
     Tick (Fulfilled (Some \<lparr> status = ''PROCESSING'',
                              progress = Some \<lparr> progress_total = Some 8,
                                                progress_completed = Some 3 \<rparr>,
                              error_message = None \<rparr>)) False (Fulfilled ()) False"

definition completed_sync_rejected :: tick where
  "completed_sync_rejected =
     Tick (Fulfilled (Some \<lparr> status = ''COMPLETED'',
                              progress = Some \<lparr> progress_total = Some 8,
                                                progress_completed = Some 8 \<rparr>,
                              error_message = None \<rparr>)) False Rejected False"

definition opened :: poller where
  "opened = \<lparr> cancelled = False, pollFailCount = 0,
              localStorage = [''renovationTaskId'' \<mapsto> ''task-1''],
              isRenovationProcessing = False, renovationProgress = None,
              toasts = [], navigated = [], synced = [], timer = None \<rparr>"

section \<open>Editable export: region tree, recovery and assembly\<close>

text \<open>
  The editable-PPTX export is described by the specification (sections 3 to 7); its code is
  not among the sources, so the definitions of this section follow the specification's
  words, each one marked as such.
\<close>

text \<open>
  Modelled from the spec: the kinds of a Region (section 3), \<^verbatim>\<open>TextBlock\<close>, \<^verbatim>\<open>Table\<close>,
  \<^verbatim>\<open>Image\<close>, \<^verbatim>\<open>Group\<close> and \<^verbatim>\<open>Background\<close>. Children exist "only for Group", so a
  \<^verbatim>\<open>Group\<close> is the inner node of the tree below and the other four kinds are the kinds
  of its leaves.
\<close>

datatype leaf_kind = TextBlock | Table | ImageKind | Background

text \<open>
  Modelled from the spec: a bounding box "x, y, w, h in normalized 0-1 coordinates"
  (section 3).
\<close>

record box =
  box_x :: rat
  box_y :: rat
  box_w :: rat
  box_h :: rat

text \<open>
  Modelled from the spec: a Region without children (section 3): its id (the key of the
  assembler's maps), its bounding box, its kind and its z-order, the paint order index.
\<close>

record leaf =
  l_id :: nat
  l_box :: box
  l_kind :: leaf_kind
  l_z :: nat

text \<open>
  Modelled from the spec: the Region tree (section 3). A \<^verbatim>\<open>Group\<close> carries its id, its
  box, its z-order and the ordered sequence of its children.
\<close>

datatype region = Leaf leaf | Group nat box nat "region list"

text \<open>
  Modelled from the spec: the weight of a TextStyle, normal or bold (section 3).
\<close>

datatype weight = Normal | Bold

text \<open>
  Modelled from the spec: TextStyle (section 3): literal text, font size in points, weight,
  colour (RGB and alpha), horizontal alignment and approximate font family.
\<close>

record text_style =
  ts_text :: string
  ts_font_size :: rat
  ts_weight :: weight
  ts_color :: "nat \<times> nat \<times> nat \<times> nat"
  ts_align :: string
  ts_family :: string

text \<open>
  Modelled from the spec: a Cell of a TableModel (section 3): row-span, col-span, text and
  style.
\<close>

record cell =
  row_span :: nat
  col_span :: nat
  cell_text :: string
  cell_style :: text_style

text \<open>
  Modelled from the spec: TableModel (section 3): row count, column count and the ordered
  sequence of cells.
\<close>

record table_model =
  row_count :: nat
  col_count :: nat
  cells :: "cell list"

text \<open>
  Modelled from the spec: SlideImage (section 3): raw pixel buffer, width, height and colour
  depth.
\<close>

record slide_image =
  img_pixels :: "nat list"
  img_width :: nat
  img_height :: nat
  img_depth :: nat

text \<open>
  Modelled from the spec: BackgroundPlate (section 3), an image buffer of the dimensions of
  the slide image.
\<close>

record background_plate =
  plate_pixels :: "nat list"
  plate_width :: nat
  plate_height :: nat

text \<open>
  Modelled from the spec: what a placed element of a SlideDocument is (section 3): a
  TextBlock, a Table or an Image. The first two carry what the assembler's maps hold for
  their region, if anything.
\<close>

datatype content = TextBlockEl "text_style option" | TableEl "table_model option" | ImageEl

text \<open>
  Modelled from the spec: a placed element (section 3), "with its absolute position/size
  derived from its Region's normalized box and the target canvas size". It remembers the
  id of the region it was made from.
\<close>

record placed =
  el_source :: nat
  el_x :: rat
  el_y :: rat
  el_w :: rat
  el_h :: rat
  el_content :: content

text \<open>
  Modelled from the spec: SlideDocument (section 3): the background plate and the ordered
  sequence of placed elements.
\<close>

record slide_document =
  doc_background :: background_plate
  doc_elements :: "placed list"

text \<open>
  Modelled from the spec: the leaf Regions of a tree (glossary: the regions that correspond
  to one emitted element each), in the order of the children sequences.
\<close>

fun leaves :: "region \<Rightarrow> leaf list" where
  "leaves (Leaf l) = [l]"
| "leaves (Group i b z cs) = concat (map leaves cs)"

text \<open>
  Modelled from the spec: the ids of the Group regions of a tree.
\<close>

fun group_ids :: "region \<Rightarrow> nat list" where
  "group_ids (Leaf l) = []"
| "group_ids (Group i b z cs) = i # concat (map group_ids cs)"

text \<open>
  The ids of all regions of a tree. The specification indexes regions by id (section 9), so
  a well-formed tree has no id twice.
\<close>

definition region_ids :: "region \<Rightarrow> nat list" where
  "region_ids tree = group_ids tree @ map l_id (leaves tree)"

text \<open>
  Modelled from the spec: the absolute position and size of an element (section 3): the
  normalized box scaled by the canvas, which has the dimensions of the background plate.
\<close>

definition placed_at :: "background_plate \<Rightarrow> leaf \<Rightarrow> content \<Rightarrow> placed" where
  "placed_at bg l c =
     \<lparr> el_source = l_id l,
       el_x = box_x (l_box l) * of_nat (plate_width bg),
       el_y = box_y (l_box l) * of_nat (plate_height bg),
       el_w = box_w (l_box l) * of_nat (plate_width bg),
       el_h = box_h (l_box l) * of_nat (plate_height bg),
       el_content = c \<rparr>"

text \<open>
  Modelled from the spec: the element the Document Assembler emits for one leaf
  (section 4.5). A SlideDocument holds elements of the kinds TextBlock, Table and Image
  only, so a Background leaf gives none.
\<close>

definition place ::
  "(nat \<rightharpoonup> text_style) \<Rightarrow> (nat \<rightharpoonup> table_model) \<Rightarrow> background_plate \<Rightarrow> leaf \<Rightarrow> placed option" where
  "place texts tables bg l =
     (case l_kind l of
        TextBlock \<Rightarrow> Some (placed_at bg l (TextBlockEl (texts (l_id l))))
      | Table \<Rightarrow> Some (placed_at bg l (TableEl (tables (l_id l))))
      | ImageKind \<Rightarrow> Some (placed_at bg l ImageEl)
      | Background \<Rightarrow> None)"

text \<open>
  Modelled from the spec: the Document Assembler (section 4.5), whose code is not among the
  sources: \<^verbatim>\<open>assemble(root, texts, tables, background)\<close> "walks the Region tree in paint
  order (z-order ascending), emits one placed element per leaf Region; Group regions are
  not emitted". Leaves of equal z-order keep the order of the tree.
\<close>

definition assemble ::
  "region \<Rightarrow> (nat \<rightharpoonup> text_style) \<Rightarrow> (nat \<rightharpoonup> table_model) \<Rightarrow> background_plate \<Rightarrow> slide_document" where
  "assemble tree texts tables bg =
     \<lparr> doc_background = bg,
       doc_elements = List.map_filter (place texts tables bg) (sort_key l_z (leaves tree)) \<rparr>"

text \<open>
  The leaves of a tree whose kind is not Background.
\<close>

definition emitted :: "region \<Rightarrow> leaf list" where
  "emitted tree = filter (\<lambda>l. l_kind l \<noteq> Background) (leaves tree)"

text \<open>
  Modelled from the spec: the error taxonomy (section 7).
\<close>

datatype error_kind =
    SegmentationFailed
  | OcrLowConfidence
  | TableStructureAmbiguous
  | BackgroundReconstructionFailed
  | ExternalServiceUnavailable
  | EncodingFailed

text \<open>
  Modelled from the spec: the stage a warning comes from (section 6: a warning is a region
  id, a stage and a reason); the two recovery stages are the ones that warn here.
\<close>

datatype stage = TextRecovery | TableRecovery

text \<open>
  Modelled from the spec: a non-fatal warning "(region id, stage, reason)" (section 6).
\<close>

record warning =
  w_region :: nat
  w_stage :: stage
  w_reason :: error_kind

text \<open>
  Modelled from the spec: the export configuration (section 6).
\<close>

record config =
  returnPartialOnError :: bool
  maxSegmentationDepth :: nat
  minOcrConfidence :: rat
  tableStructureTolerance :: rat

text \<open>
  Modelled from the spec: the recognition services, "a capability interface injected into
  the pipeline" (section 9). \<^verbatim>\<open>recognizeText\<close> returns its best reading of a region and
  the confidence of the recognition; \<^verbatim>\<open>recognizeTableLines\<close> returns the grid it recovered
  and how far its row and column line hypotheses disagree.
\<close>

record capabilities =
  recognizeText :: "slide_image \<Rightarrow> leaf \<Rightarrow> text_style \<times> rat"
  recognizeTableLines :: "slide_image \<Rightarrow> leaf \<Rightarrow> table_model \<times> rat"

text \<open>
  Modelled from the spec: the Text Style Recoverer (section 4.2), whose code is not among the
  sources: \<^verbatim>\<open>recoverText\<close> "fails with OcrLowConfidence when recognition confidence is
  below a threshold".
\<close>

definition recoverText ::
  "config \<Rightarrow> capabilities \<Rightarrow> slide_image \<Rightarrow> leaf \<Rightarrow> error_kind + text_style" where
  "recoverText cfg caps img l =
     (let (style, confidence) = recognizeText caps img l
      in if confidence < minOcrConfidence cfg then Inl OcrLowConfidence else Inr style)"

text \<open>
  Modelled from the spec: the Table Structure Recoverer (section 4.3), whose code is not among
  the sources: \<^verbatim>\<open>recoverTable\<close> "fails with TableStructureAmbiguous if detected row/column
  line hypotheses disagree beyond a tolerance".
\<close>

definition recoverTable ::
  "config \<Rightarrow> capabilities \<Rightarrow> slide_image \<Rightarrow> leaf \<Rightarrow> error_kind + table_model" where
  "recoverTable cfg caps img l =
     (let (model, disagreement) = recognizeTableLines caps img l
      in if disagreement > tableStructureTolerance cfg then Inl TableStructureAmbiguous
         else Inr model)"

text \<open>
  Modelled from the spec: the caller of \<^verbatim>\<open>recoverText\<close>, for the TextBlock leaves of the
  segmented tree (section 2: "for each text region"). \<^verbatim>\<open>OcrLowConfidence\<close> is
  "recoverable; degrade to best-effort text with a warning, or fail the slide if
  returnPartialOnError=false" (section 7).
\<close>

fun recover_texts ::
  "config \<Rightarrow> capabilities \<Rightarrow> slide_image \<Rightarrow> leaf list
     \<Rightarrow> error_kind + ((nat \<rightharpoonup> text_style) \<times> warning list)" where
  "recover_texts cfg caps img [] = Inr (Map.empty, [])"
| "recover_texts cfg caps img (l # ls) =
     (if l_kind l \<noteq> TextBlock then recover_texts cfg caps img ls
      else case recoverText cfg caps img l of
          Inr style \<Rightarrow>
            (case recover_texts cfg caps img ls of
               Inl e \<Rightarrow> Inl e
             | Inr (texts, ws) \<Rightarrow> Inr (texts(l_id l \<mapsto> style), ws))
        | Inl e \<Rightarrow>
            if returnPartialOnError cfg then
              (case recover_texts cfg caps img ls of
                 Inl e' \<Rightarrow> Inl e'
               | Inr (texts, ws) \<Rightarrow>
                   Inr (texts(l_id l \<mapsto> fst (recognizeText caps img l)),
                        \<lparr> w_region = l_id l, w_stage = TextRecovery, w_reason = e \<rparr> # ws))
            else Inl e)"

text \<open>
  Modelled from the spec: the caller of \<^verbatim>\<open>recoverTable\<close>, for the Table leaves of the
  segmented tree. \<^verbatim>\<open>TableStructureAmbiguous\<close> is "recoverable; demote Table to TextBlock"
  (section 7), and "per-region recoverable failures are absorbed locally and recorded as
  warnings".
\<close>

fun recover_tables ::
  "config \<Rightarrow> capabilities \<Rightarrow> slide_image \<Rightarrow> leaf list
     \<Rightarrow> (nat \<rightharpoonup> table_model) \<times> warning list" where
  "recover_tables cfg caps img [] = (Map.empty, [])"
| "recover_tables cfg caps img (l # ls) =
     (let (tables, ws) = recover_tables cfg caps img ls
      in if l_kind l \<noteq> Table then (tables, ws)
         else case recoverTable cfg caps img l of
             Inr model \<Rightarrow> (tables(l_id l \<mapsto> model), ws)
           | Inl e \<Rightarrow>
               (tables, \<lparr> w_region = l_id l, w_stage = TableRecovery, w_reason = e \<rparr> # ws))"

text \<open>
  Modelled from the spec: the demotion of a Table region whose recovery failed: "the caller
  demotes the region to a TextBlock" (section 4.3).
\<close>

definition demote_leaf :: "config \<Rightarrow> capabilities \<Rightarrow> slide_image \<Rightarrow> leaf \<Rightarrow> leaf" where
  "demote_leaf cfg caps img l =
     (if l_kind l = Table \<and> isl (recoverTable cfg caps img l)
      then l\<lparr> l_kind := TextBlock \<rparr> else l)"

text \<open>
  Modelled from the spec: the Region tree after the demotions.
\<close>

fun demote :: "config \<Rightarrow> capabilities \<Rightarrow> slide_image \<Rightarrow> region \<Rightarrow> region" where
  "demote cfg caps img (Leaf l) = Leaf (demote_leaf cfg caps img l)"
| "demote cfg caps img (Group i b z cs) = Group i b z (map (demote cfg caps img) cs)"

text \<open>
  Modelled from the spec: the export of one slide from its segmented Region tree and its
  background plate to the assembled document (sections 2 and 4.6: Segmented, Recovered,
  BackgroundReady, Assembled), whose code is not among the sources. Text recovery and table
  recovery run on the leaves of the segmented tree independently of each other (section 5);
  the assembler then works on the tree after the demotions. The result is the failure of
  the slide, or the document with the warnings.
\<close>

definition export_slide ::
  "config \<Rightarrow> capabilities \<Rightarrow> slide_image \<Rightarrow> region \<Rightarrow> background_plate
     \<Rightarrow> error_kind + (slide_document \<times> warning list)" where
  "export_slide cfg caps img tree bg =
     (case recover_texts cfg caps img (leaves tree) of
        Inl e \<Rightarrow> Inl e
      | Inr (texts, text_warnings) \<Rightarrow>
          let (tables, table_warnings) = recover_tables cfg caps img (leaves tree)
          in Inr (assemble (demote cfg caps img tree) texts tables bg,
                  text_warnings @ table_warnings))"

text \<open>
  A text region whose recognition confidence is below the threshold, and a table region
  whose line hypotheses disagree beyond the tolerance.
\<close>

definition low_confidence :: "config \<Rightarrow> capabilities \<Rightarrow> slide_image \<Rightarrow> leaf \<Rightarrow> bool" where
  "low_confidence cfg caps img l \<longleftrightarrow>
     l_kind l = TextBlock \<and> snd (recognizeText caps img l) < minOcrConfidence cfg"

definition ambiguous :: "config \<Rightarrow> capabilities \<Rightarrow> slide_image \<Rightarrow> leaf \<Rightarrow> bool" where
  "ambiguous cfg caps img l \<longleftrightarrow>
     l_kind l = Table \<and> snd (recognizeTableLines caps img l) > tableStructureTolerance cfg"

text \<open>
  The warnings the two recovery stages record for a region.
\<close>

definition text_warning :: "leaf \<Rightarrow> warning" where
  "text_warning l = \<lparr> w_region = l_id l, w_stage = TextRecovery, w_reason = OcrLowConfidence \<rparr>"

definition table_warning :: "leaf \<Rightarrow> warning" where
  "table_warning l =
     \<lparr> w_region = l_id l, w_stage = TableRecovery, w_reason = TableStructureAmbiguous \<rparr>"

text \<open>
  A slide used to run the export on concrete data: a backdrop, a title, a group holding a
  table and a photo, and a caption. The caption is recognised with confidence 1/5 and the
  line hypotheses of the table disagree by 1/2; the thresholds are 1/2 and 1/10.
\<close>

definition plain_style :: text_style where
  "plain_style = \<lparr> ts_text = ''Quarterly results'', ts_font_size = 24, ts_weight = Bold,
                    ts_color = (0, 0, 0, 255), ts_align = ''left'', ts_family = ''Arial'' \<rparr>"

definition one_cell_table :: table_model where
  "one_cell_table = \<lparr> row_count = 1, col_count = 1,
       cells = [\<lparr> row_span = 1, col_span = 1, cell_text = ''Q1'', cell_style = plain_style \<rparr>] \<rparr>"

definition sample_backdrop :: leaf where
  "sample_backdrop = \<lparr> l_id = 6, l_box = \<lparr> box_x = 0, box_y = 0, box_w = 1, box_h = 1 \<rparr>,
                        l_kind = Background, l_z = 0 \<rparr>"

definition sample_title :: leaf where
  "sample_title = \<lparr> l_id = 1, l_box = \<lparr> box_x = 1/10, box_y = 1/10, box_w = 4/5, box_h = 1/5 \<rparr>,
                     l_kind = TextBlock, l_z = 2 \<rparr>"

definition sample_caption :: leaf where
  "sample_caption = \<lparr> l_id = 2, l_box = \<lparr> box_x = 1/10, box_y = 4/5, box_w = 4/5, box_h = 1/10 \<rparr>,
                       l_kind = TextBlock, l_z = 4 \<rparr>"

definition sample_grid :: leaf where
  "sample_grid = \<lparr> l_id = 4, l_box = \<lparr> box_x = 1/10, box_y = 2/5, box_w = 2/5, box_h = 3/10 \<rparr>,
                    l_kind = Table, l_z = 3 \<rparr>"

definition sample_photo :: leaf where
  "sample_photo = \<lparr> l_id = 5, l_box = \<lparr> box_x = 1/2, box_y = 2/5, box_w = 2/5, box_h = 3/10 \<rparr>,
                     l_kind = ImageKind, l_z = 1 \<rparr>"

definition sample_tree :: region where
  "sample_tree =
     Group 0 \<lparr> box_x = 0, box_y = 0, box_w = 1, box_h = 1 \<rparr> 0
       [Leaf sample_backdrop, Leaf sample_title,
        Group 3 \<lparr> box_x = 1/10, box_y = 2/5, box_w = 4/5, box_h = 3/10 \<rparr> 1
          [Leaf sample_grid, Leaf sample_photo],
        Leaf sample_caption]"

definition sample_caps :: capabilities where
  "sample_caps =
     \<lparr> recognizeText = (\<lambda>img l. (plain_style, if l_id l = 2 then 1/5 else 9/10)),
       recognizeTableLines = (\<lambda>img l. (one_cell_table, if l_id l = 4 then 1/2 else 0)) \<rparr>"

definition sample_cfg :: config where
  "sample_cfg = \<lparr> returnPartialOnError = True, maxSegmentationDepth = 4,
                   minOcrConfidence = 1/2, tableStructureTolerance = 1/10 \<rparr>"

definition sample_image :: slide_image where
  "sample_image = \<lparr> img_pixels = [], img_width = 1920, img_height = 1080, img_depth = 8 \<rparr>"

definition sample_plate :: background_plate where
  "sample_plate = \<lparr> plate_pixels = [], plate_width = 1920, plate_height = 1080 \<rparr>"

section \<open>Properties of the reducer\<close>

text \<open>
  C8. \<^verbatim>\<open>TOGGLE_SELECT\<close> is an involution on the selection: one application with key
  \<open>k\<close> adds \<open>k\<close> exactly when it is absent and removes it exactly when it is present, and
  two applications in a row give back the selected set of the state they started from
  (indeed the whole state).
\<close>

theorem toggle_select_involution:
  "selected (reducer (reducer s (TOGGLE_SELECT k)) (TOGGLE_SELECT k)) = selected s
   \<and> reducer (reducer s (TOGGLE_SELECT k)) (TOGGLE_SELECT k) = s
   \<and> (k \<in> selected (reducer s (TOGGLE_SELECT k))) = (k \<notin> selected s)
   \<and> selected (reducer s (TOGGLE_SELECT k)) - {k} = selected s - {k}"
  by (auto simp: Let_def insert_absorb)

theorem toggle_select_involution_witness:
  "selected (reducer (reducer busy_state (TOGGLE_SELECT ''a'')) (TOGGLE_SELECT ''a''))
     = {''a'', ''c''}
   \<and> selected (reducer busy_state (TOGGLE_SELECT ''a'')) = {''c''}
   \<and> selected (reducer busy_state (TOGGLE_SELECT ''b'')) = {''a'', ''b'', ''c''}"
  using toggle_select_involution [of busy_state "''a''"]
  by (auto simp: busy_state_def initial_def Let_def)

text \<open>
  C10. \<^verbatim>\<open>REMOVE_ITEM\<close> with key \<open>k\<close> changes only \<open>items\<close> and \<open>selected\<close>: it
  removes exactly the materials whose id is \<open>k\<close> from \<open>items\<close> (the others stay, in
  order), removes \<open>k\<close> from \<open>selected\<close>, and leaves \<open>deleting\<close>, \<open>loading\<close>,
  \<open>uploading\<close>, \<open>downloading\<close>, \<open>filter\<close>, \<open>projects\<close>, \<open>projectsReady\<close>,
  \<open>showAllProjects\<close> and \<open>preview\<close> as they were.
\<close>

theorem remove_item_frame:
  "items (reducer s (REMOVE_ITEM k)) = filter (\<lambda>m. m_id m \<noteq> k) (items s)
   \<and> selected (reducer s (REMOVE_ITEM k)) = selected s - {k}
   \<and> deleting (reducer s (REMOVE_ITEM k)) = deleting s
   \<and> loading (reducer s (REMOVE_ITEM k)) = loading s
   \<and> uploading (reducer s (REMOVE_ITEM k)) = uploading s
   \<and> downloading (reducer s (REMOVE_ITEM k)) = downloading s
   \<and> filter_v (reducer s (REMOVE_ITEM k)) = filter_v s
   \<and> projects (reducer s (REMOVE_ITEM k)) = projects s
   \<and> projectsReady (reducer s (REMOVE_ITEM k)) = projectsReady s
   \<and> showAllProjects (reducer s (REMOVE_ITEM k)) = showAllProjects s
   \<and> preview (reducer s (REMOVE_ITEM k)) = preview s
   \<and> reducer s (REMOVE_ITEM k)
       = s\<lparr> items := filter (\<lambda>m. m_id m \<noteq> k) (items s), selected := selected s - {k} \<rparr>"
  by (simp add: Let_def)

theorem remove_item_frame_witness:
  "items (reducer busy_state (REMOVE_ITEM ''a'')) = [mat_b]
   \<and> selected (reducer busy_state (REMOVE_ITEM ''a'')) = {''c''}
   \<and> deleting (reducer busy_state (REMOVE_ITEM ''a'')) = {''a''}
   \<and> loading (reducer busy_state (REMOVE_ITEM ''a''))
   \<and> filter_v (reducer busy_state (REMOVE_ITEM ''a'')) = ''none''"
  using remove_item_frame [of busy_state "''a''"]
  by (auto simp: busy_state_def initial_def mat_a_def mat_b_def)

section \<open>Properties of the poller\<close>

lemma run_dead: "timer s = None \<Longrightarrow> run pid es s = s"
  by (cases es) auto

lemma run_append: "run pid (xs @ ys) s = run pid ys (run pid xs s)"
  by (induction xs arbitrary: s) (auto simp: run_dead split: option.splits)

lemma run_snoc:
  "run pid (es @ [e]) s =
     (if timer (run pid es s) = None then run pid es s else poll pid e (run pid es s))"
  by (auto simp add: run_append split: option.splits)

lemma poll_call_failed_retry:
  "call_failed e \<Longrightarrow> \<not> cancelled s \<Longrightarrow> pollFailCount s < 4 \<Longrightarrow>
   poll pid e s = s\<lparr> timer := Some 3000, pollFailCount := Suc (pollFailCount s) \<rparr>"
  by (simp add: poll_def catch_block_def call_failed_def Let_def)

lemma poll_call_failed_fifth:
  "call_failed e \<Longrightarrow> \<not> cancelled s \<Longrightarrow> pollFailCount s = 4 \<Longrightarrow> poll pid e s = gave_up s"
  by (simp add: poll_def catch_block_def call_failed_def Let_def gave_up_def)

lemma abandoned_gave_up: "abandoned (gave_up s)"
  by (simp add: abandoned_def gave_up_def)

lemma poll_sync_failed:
  "sync_failed e \<Longrightarrow> \<not> cancelled s \<Longrightarrow>
   timer (poll pid e s) = Some 3000 \<and> pollFailCount (poll pid e s) = 1
   \<and> \<not> cancelled (poll pid e s) \<and> abandoned (poll pid e s) = abandoned s"
  by (auto simp: poll_def catch_block_def sync_failed_def Let_def abandoned_def
      split: settled.splits option.splits)

lemma poll_other:
  "\<not> call_failed e \<Longrightarrow> \<not> sync_failed e \<Longrightarrow>
   abandoned (poll pid e s) = abandoned s
   \<and> (timer (poll pid e s) \<noteq> None \<longrightarrow>
        \<not> cancelled (poll pid e s) \<and> pollFailCount (poll pid e s) = 0)"
  by (cases e)
     (auto simp: poll_def catch_block_def call_failed_def sync_failed_def Let_def abandoned_def
        or_else_def split: settled.splits option.splits if_splits)

lemma poll_reply_counter:
  "\<not> cancelled s \<Longrightarrow>
   pollFailCount (poll pid (Tick (Fulfilled (Some t)) False sy us) s)
     = (if sync_failed (Tick (Fulfilled (Some t)) False sy us) then 1 else 0)"
  by (auto simp: poll_def catch_block_def sync_failed_def Let_def
      split: settled.splits option.splits)

lemma failures_Nil: "failures [] = 0"
  by (simp add: failures_def streak_def)

lemma failures_snoc:
  "failures (es @ [e])
     = (if call_failed e then Suc (failures es) else if sync_failed e then 1 else 0)"
  by (simp add: failures_def streak_def)

lemma failures_split:
  "failures es = Suc n \<Longrightarrow>
   \<exists>pre f mid. es = pre @ f # mid \<and> (call_failed f \<or> sync_failed f)
      \<and> length mid = n \<and> (\<forall>e \<in> set mid. call_failed e)"
proof (induction es arbitrary: n rule: rev_induct)
  case Nil
  then show ?case by (simp add: failures_Nil)
next
  case (snoc e es)
  show ?case
  proof (cases "call_failed e")
    case True
    with snoc.prems have fe: "failures es = n" by (simp add: failures_snoc)
    show ?thesis
    proof (cases n)
      case 0
      have "es @ [e] = es @ e # []" by simp
      with True 0 show ?thesis by (metis empty_iff length_0_conv list.set(1))
    next
      case (Suc m)
      with fe snoc.IH obtain pre f mid where d: "es = pre @ f # mid"
        "call_failed f \<or> sync_failed f" "length mid = m" "\<forall>e \<in> set mid. call_failed e"
        by blast
      have "es @ [e] = pre @ f # (mid @ [e])" using d(1) by simp
      moreover have "length (mid @ [e]) = n" using d(3) Suc by simp
      moreover have "\<forall>x \<in> set (mid @ [e]). call_failed x" using d(4) True by simp
      ultimately show ?thesis using d(2) by blast
    qed
  next
    case False
    with snoc.prems have s: "sync_failed e" "n = 0"
      by (simp_all add: failures_snoc split: if_splits)
    have "es @ [e] = es @ e # []" by simp
    with s show ?thesis by (metis empty_iff length_0_conv list.set(1))
  qed
qed


lemma run_invariant:
  assumes "\<not> cancelled s0" "timer s0 \<noteq> None" "pollFailCount s0 = 0" "\<not> abandoned s0"
  shows "(timer (run pid es s0) \<noteq> None \<longrightarrow>
            \<not> cancelled (run pid es s0) \<and> \<not> abandoned (run pid es s0)
            \<and> pollFailCount (run pid es s0) < 5
            \<and> pollFailCount (run pid es s0) = failures es)
       \<and> (abandoned (run pid es s0) \<longrightarrow>
            (\<exists>pre f mid post. es = pre @ f # mid @ post
               \<and> (call_failed f \<or> sync_failed f)
               \<and> length mid = 4 \<and> (\<forall>e \<in> set mid. call_failed e)
               \<and> \<not> abandoned (run pid (pre @ f # butlast mid) s0)))"
proof (induction es rule: rev_induct)
  case Nil
  then show ?case using assms by (simp add: failures_Nil)
next
  case (snoc e es)
  let ?s = "run pid es s0"
  show ?case
  proof (cases "timer ?s = None")
    case True
    then have same: "run pid (es @ [e]) s0 = ?s" by (simp add: run_snoc)
    have "\<exists>pre f mid post. es @ [e] = pre @ f # mid @ post
               \<and> (call_failed f \<or> sync_failed f)
               \<and> length mid = 4 \<and> (\<forall>e \<in> set mid. call_failed e)
               \<and> \<not> abandoned (run pid (pre @ f # butlast mid) s0)"
      if "abandoned ?s"
    proof -
      from that snoc obtain pre f mid post where d: "es = pre @ f # mid @ post"
        "call_failed f \<or> sync_failed f" "length mid = 4" "\<forall>e \<in> set mid. call_failed e"
        "\<not> abandoned (run pid (pre @ f # butlast mid) s0)" by blast
      have "es @ [e] = pre @ f # mid @ (post @ [e])" using d(1) by simp
      with d(2-5) show ?thesis by blast
    qed
    with True same show ?thesis by simp
  next
    case False
    then have step: "run pid (es @ [e]) s0 = poll pid e ?s" by (auto simp: run_snoc)
    from False snoc have live: "\<not> cancelled ?s" "\<not> abandoned ?s" "pollFailCount ?s < 5"
      "pollFailCount ?s = failures es" by simp_all
    show ?thesis
    proof (cases "call_failed e")
      case cf: True
      have fs: "failures (es @ [e]) = Suc (failures es)" using cf by (simp add: failures_snoc)
      show ?thesis
      proof (cases "pollFailCount ?s = 4")
        case True
        then have p: "poll pid e ?s = gave_up ?s"
          using live cf by (simp add: poll_call_failed_fifth)
        from True live have "failures es = Suc 3" by simp
        from failures_split [OF this] obtain pre f mid where d: "es = pre @ f # mid"
          "call_failed f \<or> sync_failed f" "length mid = 3" "\<forall>e \<in> set mid. call_failed e"
          by blast
        let ?mid = "mid @ [e]"
        have "es @ [e] = pre @ f # ?mid @ []" using d(1) by simp
        moreover have "length ?mid = 4" "\<forall>x \<in> set ?mid. call_failed x"
          using d(3,4) cf by simp_all
        moreover have "\<not> abandoned (run pid (pre @ f # butlast ?mid) s0)"
          using d(1) live(2) by simp
        ultimately have "\<exists>pre f mid post. es @ [e] = pre @ f # mid @ post
               \<and> (call_failed f \<or> sync_failed f)
               \<and> length mid = 4 \<and> (\<forall>e \<in> set mid. call_failed e)
               \<and> \<not> abandoned (run pid (pre @ f # butlast mid) s0)"
          using d(2) by blast
        moreover have "timer (gave_up ?s) = None" by (simp add: gave_up_def)
        ultimately show ?thesis using step p by simp
      next
        case False
        with live have lt: "pollFailCount ?s < 4" by simp
        then have p: "poll pid e ?s
            = ?s\<lparr> timer := Some 3000, pollFailCount := Suc (pollFailCount ?s) \<rparr>"
          using live cf by (simp add: poll_call_failed_retry)
        have "\<not> abandoned (poll pid e ?s)" using p live by (simp add: abandoned_def)
        then show ?thesis using step p live lt fs by simp
      qed
    next
      case ncf: False
      show ?thesis
      proof (cases "sync_failed e")
        case True
        have fs: "failures (es @ [e]) = 1" using ncf True by (simp add: failures_snoc)
        from poll_sync_failed [OF True live(1), of pid] live(2) show ?thesis
          using step fs by simp
      next
        case False
        have fs: "failures (es @ [e]) = 0" using ncf False by (simp add: failures_snoc)
        from poll_other [OF ncf False, of pid ?s] live(2) show ?thesis
          using step fs by auto
      qed
    qed
  qed
qed

lemma run_rejected_gives_up:
  "\<not> cancelled s \<Longrightarrow> timer s \<noteq> None \<Longrightarrow> pollFailCount s < 5 \<Longrightarrow> 5 \<le> pollFailCount s + n \<Longrightarrow>
   \<exists>s'. run pid (replicate n rejected) s = gave_up s'"
proof (induction n arbitrary: s)
  case 0
  then show ?case by simp
next
  case (Suc n)
  have cf: "call_failed rejected" by (simp add: call_failed_def rejected_def)
  show ?case
  proof (cases "pollFailCount s = 4")
    case True
    then have "poll pid rejected s = gave_up s"
      using Suc.prems cf by (simp add: poll_call_failed_fifth)
    moreover have "timer (gave_up s) = None" by (simp add: gave_up_def)
    ultimately show ?thesis using Suc.prems by (auto simp: run_dead)
  next
    case False
    then have lt: "pollFailCount s < 4" using Suc.prems by simp
    let ?s = "s\<lparr> timer := Some 3000, pollFailCount := Suc (pollFailCount s) \<rparr>"
    have p: "poll pid rejected s = ?s"
      using Suc.prems lt cf by (simp add: poll_call_failed_retry)
    have "\<exists>s'. run pid (replicate n rejected) ?s = gave_up s'"
      using Suc.prems lt by (intro Suc.IH) simp_all
    then show ?thesis using Suc.prems p by auto
  qed
qed

lemma mount_live:
  assumes "pid \<noteq> []" "localStorage st ''renovationTaskId'' = Some tid" "tid \<noteq> []"
  shows "mount (Some pid) st = st\<lparr> isRenovationProcessing := True, cancelled := False,
                        pollFailCount := 0, timer := Some 0 \<rparr>"
  using assms by (simp add: mount_def)

lemma five_failed_calls:
  assumes "call_failed f \<or> sync_failed f" "\<not> sync_failed f"
    "length mid = 4" "\<forall>e \<in> set mid. call_failed e"
  shows "length (f # mid) = 5 \<and> (\<forall>e \<in> set (f # mid). call_failed e)"
  using assms by simp


lemma replicate_5: "replicate 5 x = [x, x, x, x, x]"
  by (simp add: eval_nat_numeral)

lemma opened_ok:
  "''p'' \<noteq> []" "localStorage opened ''renovationTaskId'' = Some ''task-1''" "''task-1'' \<noteq> []"
  "\<not> abandoned opened"
  by (simp_all add: opened_def abandoned_def)

text \<open>
  C9, as stated, fails. The first call of \<^verbatim>\<open>getTaskStatus\<close> succeeds with a
  \<^verbatim>\<open>COMPLETED\<close> task and the \<^verbatim>\<open>syncProject\<close> that follows is rejected: the counter, set
  to zero by the reply, is 1 when the run ends. Four rejected calls of \<^verbatim>\<open>getTaskStatus\<close>
  later (not after three) polling is abandoned.
\<close>

theorem poller_gives_up_after_four_failed_calls:
  "outcome completed_sync_rejected \<noteq> Rejected
   \<and> pollFailCount (poll ''p'' completed_sync_rejected (mount (Some ''p'') opened)) = 1
   \<and> \<not> abandoned (run ''p'' [completed_sync_rejected, rejected, rejected, rejected]
          (mount (Some ''p'') opened))
   \<and> abandoned (run ''p'' [completed_sync_rejected, rejected, rejected, rejected, rejected]
        (mount (Some ''p'') opened))"
  by (simp add: mount_def opened_def poll_def catch_block_def rejected_def
      completed_sync_rejected_def Let_def abandoned_def or0_def)

text \<open>
  C9, amended. Provided no call of \<^verbatim>\<open>syncProject\<close> fails, the poller abandons polling
  only after five consecutive failed calls of \<^verbatim>\<open>getTaskStatus\<close>, and never before; on
  the fifth it removes \<^verbatim>\<open>renovationTaskId\<close> from local storage, clears the processing
  state and navigates home; every reply of \<^verbatim>\<open>getTaskStatus\<close> that carries a task resets
  the counter to zero.

  In full, for a mounted poller (a project id and a stored task id) and any history \<open>es\<close>
  of runs of \<^verbatim>\<open>poll\<close>, where the \<^verbatim>\<open>catch\<close> block counts the failed calls of
  \<^verbatim>\<open>getTaskStatus\<close> and the failed \<^verbatim>\<open>syncProject\<close> of a \<^verbatim>\<open>COMPLETED\<close> reply:
  \<^item> if polling was abandoned, \<open>es\<close> contains four failed calls of \<^verbatim>\<open>getTaskStatus\<close> in
    a row that directly follow a fifth one or a failed \<^verbatim>\<open>syncProject\<close>, and polling was
    not yet abandoned before the last of them;
  \<^item> if polling was abandoned and no \<^verbatim>\<open>syncProject\<close> failed, \<open>es\<close> contains five failed
    calls of \<^verbatim>\<open>getTaskStatus\<close> in a row;
  \<^item> while polling is still going on, the counter is the number of failures since the
    last reply that carried a task and is below 5, polling has not been abandoned, and
    five more rejected calls in a row lead to the abandoned state: the stored
    \<^verbatim>\<open>renovationTaskId\<close> is removed, the processing flag and the progress are cleared,
    the router is at \<^verbatim>\<open>/\<close> and no timer is left;
  \<^item> one failed call with the counter at 4 does exactly that, and one with the counter
    below 4 only increments the counter and polls again after 3000 ms;
  \<^item> a reply that carries a task sets the counter to zero: when that run of \<^verbatim>\<open>poll\<close> ends
    it is 0 unless the task was \<^verbatim>\<open>COMPLETED\<close> and \<^verbatim>\<open>syncProject\<close> failed, which the
    \<^verbatim>\<open>catch\<close> block counts as 1.
\<close>

theorem poller_gives_up_on_fifth_counted_failure:
  assumes "pid \<noteq> []" and "localStorage st ''renovationTaskId'' = Some tid" and "tid \<noteq> []"
    and "\<not> abandoned st"
  shows
    "(abandoned (run pid es (mount (Some pid) st)) \<longrightarrow>
        (\<exists>pre f mid post. es = pre @ f # mid @ post
           \<and> (call_failed f \<or> sync_failed f)
           \<and> length mid = 4 \<and> (\<forall>e \<in> set mid. call_failed e)
           \<and> \<not> abandoned (run pid (pre @ f # butlast mid) (mount (Some pid) st))))
     \<and> (abandoned (run pid es (mount (Some pid) st)) \<and> (\<forall>e \<in> set es. \<not> sync_failed e) \<longrightarrow>
          (\<exists>pre mid post. es = pre @ mid @ post
             \<and> length mid = 5 \<and> (\<forall>e \<in> set mid. call_failed e)))
     \<and> (timer (run pid es (mount (Some pid) st)) \<noteq> None \<longrightarrow>
          pollFailCount (run pid es (mount (Some pid) st)) = failures es
          \<and> pollFailCount (run pid es (mount (Some pid) st)) < 5
          \<and> \<not> abandoned (run pid es (mount (Some pid) st))
          \<and> abandoned (run pid (es @ replicate 5 rejected) (mount (Some pid) st))
          \<and> localStorage (run pid (es @ replicate 5 rejected) (mount (Some pid) st))
               ''renovationTaskId'' = None
          \<and> \<not> isRenovationProcessing (run pid (es @ replicate 5 rejected) (mount (Some pid) st))
          \<and> renovationProgress (run pid (es @ replicate 5 rejected) (mount (Some pid) st)) = None
          \<and> last (navigated (run pid (es @ replicate 5 rejected) (mount (Some pid) st))) = ''/''
          \<and> timer (run pid (es @ replicate 5 rejected) (mount (Some pid) st)) = None)
     \<and> (\<not> cancelled s \<and> call_failed e \<and> pollFailCount s = 4 \<longrightarrow>
          poll pid e s =
            s\<lparr> timer := None, pollFailCount := 5,
               localStorage := (localStorage s)(''renovationTaskId'' := None),
               isRenovationProcessing := False, renovationProgress := None,
               toasts := toasts s @ [\<lparr> message = Translated ''detail.renovationPollFailed'',
                                       toast_type = ''error'' \<rparr>],
               navigated := navigated s @ [''/''] \<rparr>)
     \<and> (\<not> cancelled s \<and> call_failed e \<and> pollFailCount s < 4 \<longrightarrow>
          poll pid e s = s\<lparr> timer := Some 3000, pollFailCount := Suc (pollFailCount s) \<rparr>)
     \<and> (\<not> cancelled s \<longrightarrow>
          pollFailCount (poll pid (Tick (Fulfilled (Some t)) False sy us) s)
            = (if sync_failed (Tick (Fulfilled (Some t)) False sy us) then 1 else 0))"
proof -
  let ?s0 = "mount (Some pid) st"
  have m: "?s0 = st\<lparr> isRenovationProcessing := True, cancelled := False,
                        pollFailCount := 0, timer := Some 0 \<rparr>"
    using assms(1-3) by (rule mount_live)
  have s0: "\<not> cancelled ?s0" "timer ?s0 \<noteq> None" "pollFailCount ?s0 = 0" "\<not> abandoned ?s0"
    using assms(4) by (simp_all add: m abandoned_def)
  note inv = run_invariant [OF s0, of pid es]
  have never_before: "abandoned (run pid es ?s0) \<longrightarrow>
        (\<exists>pre f mid post. es = pre @ f # mid @ post
           \<and> (call_failed f \<or> sync_failed f)
           \<and> length mid = 4 \<and> (\<forall>e \<in> set mid. call_failed e)
           \<and> \<not> abandoned (run pid (pre @ f # butlast mid) ?s0))"
    using inv by (rule conjunct2)
  have five_calls: "abandoned (run pid es ?s0) \<and> (\<forall>e \<in> set es. \<not> sync_failed e) \<longrightarrow>
          (\<exists>pre mid post. es = pre @ mid @ post
             \<and> length mid = 5 \<and> (\<forall>e \<in> set mid. call_failed e))"
  proof
    assume a: "abandoned (run pid es ?s0) \<and> (\<forall>e \<in> set es. \<not> sync_failed e)"
    with never_before obtain pre f mid post where d: "es = pre @ f # mid @ post"
      "call_failed f \<or> sync_failed f" "length mid = 4" "\<forall>e \<in> set mid. call_failed e"
      by blast
    from a d(1) have "\<not> sync_failed f" by simp
    from five_failed_calls [OF d(2) this d(3,4)] have
      "length (f # mid) = 5" "\<forall>e \<in> set (f # mid). call_failed e" by simp_all
    moreover have "es = pre @ (f # mid) @ post" using d(1) by simp
    ultimately show "\<exists>pre mid post. es = pre @ mid @ post
             \<and> length mid = 5 \<and> (\<forall>e \<in> set mid. call_failed e)" by blast
  qed
  have on_fifth: "timer (run pid es ?s0) \<noteq> None \<longrightarrow>
          pollFailCount (run pid es ?s0) = failures es
          \<and> pollFailCount (run pid es ?s0) < 5
          \<and> \<not> abandoned (run pid es ?s0)
          \<and> abandoned (run pid (es @ replicate 5 rejected) ?s0)
          \<and> localStorage (run pid (es @ replicate 5 rejected) ?s0) ''renovationTaskId'' = None
          \<and> \<not> isRenovationProcessing (run pid (es @ replicate 5 rejected) ?s0)
          \<and> renovationProgress (run pid (es @ replicate 5 rejected) ?s0) = None
          \<and> last (navigated (run pid (es @ replicate 5 rejected) ?s0)) = ''/''
          \<and> timer (run pid (es @ replicate 5 rejected) ?s0) = None"
  proof
    assume live: "timer (run pid es ?s0) \<noteq> None"
    with inv have l: "\<not> cancelled (run pid es ?s0)" "\<not> abandoned (run pid es ?s0)"
      "pollFailCount (run pid es ?s0) < 5" "pollFailCount (run pid es ?s0) = failures es"
      by simp_all
    obtain s' where "run pid (replicate 5 rejected) (run pid es ?s0) = gave_up s'"
      using run_rejected_gives_up [OF l(1) live l(3), of 5 pid] by auto
    then have g: "run pid (es @ replicate 5 rejected) ?s0 = gave_up s'"
      by (simp add: run_append)
    have "abandoned (gave_up s')" by (rule abandoned_gave_up)
    moreover have "localStorage (gave_up s') ''renovationTaskId'' = None"
      "\<not> isRenovationProcessing (gave_up s')" "renovationProgress (gave_up s') = None"
      "last (navigated (gave_up s')) = ''/''" "timer (gave_up s') = None"
      by (simp_all add: gave_up_def)
    ultimately show "pollFailCount (run pid es ?s0) = failures es
          \<and> pollFailCount (run pid es ?s0) < 5
          \<and> \<not> abandoned (run pid es ?s0)
          \<and> abandoned (run pid (es @ replicate 5 rejected) ?s0)
          \<and> localStorage (run pid (es @ replicate 5 rejected) ?s0) ''renovationTaskId'' = None
          \<and> \<not> isRenovationProcessing (run pid (es @ replicate 5 rejected) ?s0)
          \<and> renovationProgress (run pid (es @ replicate 5 rejected) ?s0) = None
          \<and> last (navigated (run pid (es @ replicate 5 rejected) ?s0)) = ''/''
          \<and> timer (run pid (es @ replicate 5 rejected) ?s0) = None"
      using l g by simp
  qed
  have fifth_step: "\<not> cancelled s \<and> call_failed e \<and> pollFailCount s = 4 \<longrightarrow>
          poll pid e s =
            s\<lparr> timer := None, pollFailCount := 5,
               localStorage := (localStorage s)(''renovationTaskId'' := None),
               isRenovationProcessing := False, renovationProgress := None,
               toasts := toasts s @ [\<lparr> message = Translated ''detail.renovationPollFailed'',
                                       toast_type = ''error'' \<rparr>],
               navigated := navigated s @ [''/''] \<rparr>"
    using poll_call_failed_fifth [of e s pid] by (simp add: gave_up_def)
  have earlier_step: "\<not> cancelled s \<and> call_failed e \<and> pollFailCount s < 4 \<longrightarrow>
          poll pid e s = s\<lparr> timer := Some 3000, pollFailCount := Suc (pollFailCount s) \<rparr>"
    using poll_call_failed_retry [of e s pid] by simp
  have reset: "\<not> cancelled s \<longrightarrow>
          pollFailCount (poll pid (Tick (Fulfilled (Some t)) False sy us) s)
            = (if sync_failed (Tick (Fulfilled (Some t)) False sy us) then 1 else 0)"
    using poll_reply_counter [of s pid t sy us] by simp
  show ?thesis
    by (intro conjI never_before five_calls on_fifth fifth_step earlier_step reset)
qed

theorem poller_gives_up_on_fifth_counted_failure_witness:
  "timer (run ''p'' [rejected, completed_sync_rejected, rejected, rejected, rejected]
      (mount (Some ''p'') opened)) = Some 3000
   \<and> pollFailCount (run ''p'' [rejected, completed_sync_rejected, rejected, rejected, rejected]
        (mount (Some ''p'') opened)) = 4
   \<and> failures [rejected, completed_sync_rejected, rejected, rejected, rejected] = 4
   \<and> abandoned (run ''p''
        ([rejected, completed_sync_rejected, rejected, rejected, rejected] @ replicate 5 rejected)
        (mount (Some ''p'') opened))
   \<and> navigated (run ''p''
        ([rejected, completed_sync_rejected, rejected, rejected, rejected] @ replicate 5 rejected)
        (mount (Some ''p'') opened)) = [''/'']
   \<and> call_failed rejected
   \<and> pollFailCount (poll ''p'' rejected (opened\<lparr> pollFailCount := 4 \<rparr>)) = 5
   \<and> pollFailCount (poll ''p'' rejected (opened\<lparr> pollFailCount := 3 \<rparr>)) = 4
   \<and> pollFailCount (poll ''p'' still_processing (opened\<lparr> pollFailCount := 3 \<rparr>)) = 0
   \<and> pollFailCount (poll ''p'' completed_sync_rejected (opened\<lparr> pollFailCount := 3 \<rparr>)) = 1"
  using poller_gives_up_on_fifth_counted_failure [OF opened_ok,
      of "[rejected, completed_sync_rejected, rejected, rejected, rejected]"
         "opened\<lparr> pollFailCount := 4 \<rparr>" rejected]
  by (simp add: mount_def opened_def poll_def catch_block_def rejected_def
      still_processing_def completed_sync_rejected_def Let_def abandoned_def or0_def
      failures_def streak_def call_failed_def sync_failed_def replicate_5)

section \<open>Properties of the export\<close>

lemma map_filter_place:
  "map el_source (List.map_filter (place texts tables bg) ls)
     = map l_id (filter (\<lambda>l. l_kind l \<noteq> Background) ls)"
  by (induction ls) (auto simp: List.map_filter_simps place_def placed_at_def split: leaf_kind.splits)

lemma sources_assemble:
  "map el_source (doc_elements (assemble tree texts tables bg))
     = map l_id (sort_key l_z (emitted tree))"
  by (simp add: assemble_def map_filter_place emitted_def filter_sort)

lemma count_one:
  "distinct (map f xs) \<Longrightarrow> x \<in> set xs \<Longrightarrow> length (filter (\<lambda>y. f y = f x) xs) = 1"
proof (induction xs)
  case Nil
  then show ?case by simp
next
  case (Cons a xs)
  show ?case
  proof (cases "a = x")
    case True
    with Cons.prems have "\<forall>y\<in>set xs. f y \<noteq> f x" by (auto simp: image_iff)
    then have "filter (\<lambda>y. f y = f x) xs = []" by (simp add: filter_empty_conv)
    with True show ?thesis by simp
  next
    case False
    with Cons.prems have "x \<in> set xs" "f a \<noteq> f x" by auto
    with Cons show ?thesis by simp
  qed
qed

lemma length_filter_count:
  "length (filter (\<lambda>x. f x = i) xs) = count (mset (map f xs)) i"
  by (induction xs) auto

lemma map_filter_place_Some:
  "map Some (List.map_filter (place texts tables bg) ls)
     = map (place texts tables bg) (filter (\<lambda>l. l_kind l \<noteq> Background) ls)"
  by (induction ls) (auto simp: List.map_filter_simps place_def split: leaf_kind.splits)

lemma filter_single:
  "distinct (map f xs) \<Longrightarrow> x \<in> set xs \<Longrightarrow> filter (\<lambda>y. f y = f x) xs = [x]"
proof (induction xs)
  case Nil
  then show ?case by simp
next
  case (Cons a xs)
  show ?case
  proof (cases "a = x")
    case True
    with Cons.prems have "\<forall>y\<in>set xs. f y \<noteq> f x" by (auto simp: image_iff)
    then have "filter (\<lambda>y. f y = f x) xs = []" by (simp add: filter_empty_conv)
    with True show ?thesis by simp
  next
    case False
    with Cons.prems have "x \<in> set xs" "f a \<noteq> f x" by auto
    with Cons show ?thesis by simp
  qed
qed

lemma filter_map_filter_place:
  "filter (\<lambda>e. el_source e = i) (List.map_filter (place texts tables bg) ls)
     = List.map_filter (place texts tables bg) (filter (\<lambda>l. l_id l = i) ls)"
  by (induction ls)
     (auto simp: List.map_filter_simps place_def placed_at_def split: leaf_kind.splits)

lemma element_of_leaf:
  assumes "distinct (map l_id (leaves tree))" "l \<in> set (leaves tree)"
  shows "filter (\<lambda>e. el_source e = l_id l) (doc_elements (assemble tree texts tables bg))
           = List.map_filter (place texts tables bg) [l]"
proof -
  have "distinct (map l_id (sort_key l_z (leaves tree)))"
    using assms(1) by (simp add: distinct_map)
  moreover have "l \<in> set (sort_key l_z (leaves tree))" using assms(2) by simp
  ultimately have "filter (\<lambda>l'. l_id l' = l_id l) (sort_key l_z (leaves tree)) = [l]"
    by (rule filter_single)
  then show ?thesis by (simp add: assemble_def filter_map_filter_place)
qed

lemma leaves_demote:
  "leaves (demote cfg caps img t) = map (demote_leaf cfg caps img) (leaves t)"
  by (induction t) (auto simp: map_concat intro!: arg_cong [where f = concat])

lemma l_id_demote_leaf: "l_id (demote_leaf cfg caps img l) = l_id l"
  by (simp add: demote_leaf_def)

lemma ids_leaves_demote:
  "map l_id (leaves (demote cfg caps img t)) = map l_id (leaves t)"
  by (simp add: leaves_demote l_id_demote_leaf comp_def)

lemma recoverText_cases:
  "recoverText cfg caps img l =
     (if snd (recognizeText caps img l) < minOcrConfidence cfg then Inl OcrLowConfidence
      else Inr (fst (recognizeText caps img l)))"
  by (simp add: recoverText_def split: prod.splits)

lemma recoverTable_cases:
  "recoverTable cfg caps img l =
     (if snd (recognizeTableLines caps img l) > tableStructureTolerance cfg
      then Inl TableStructureAmbiguous
      else Inr (fst (recognizeTableLines caps img l)))"
  by (simp add: recoverTable_def split: prod.splits)

lemma recover_texts_partial:
  "returnPartialOnError cfg \<Longrightarrow>
   \<exists>texts. recover_texts cfg caps img ls
      = Inr (texts, map text_warning (filter (low_confidence cfg caps img) ls))
     \<and> (\<forall>l \<in> set ls. l_kind l = TextBlock \<longrightarrow> distinct (map l_id ls) \<longrightarrow>
           texts (l_id l) = Some (fst (recognizeText caps img l)))"
proof (induction ls)
  case Nil
  then show ?case by simp
next
  case (Cons a ls)
  then obtain texts where r: "recover_texts cfg caps img ls
      = Inr (texts, map text_warning (filter (low_confidence cfg caps img) ls))"
    and t: "\<forall>l \<in> set ls. l_kind l = TextBlock \<longrightarrow> distinct (map l_id ls) \<longrightarrow>
           texts (l_id l) = Some (fst (recognizeText caps img l))"
    by blast
  show ?case
  proof (cases "l_kind a = TextBlock")
    case False
    then have "\<not> low_confidence cfg caps img a" by (simp add: low_confidence_def)
    then show ?thesis using False r t by auto
  next
    case True
    let ?texts = "texts(l_id a \<mapsto> fst (recognizeText caps img a))"
    have low: "low_confidence cfg caps img a
                 \<longleftrightarrow> snd (recognizeText caps img a) < minOcrConfidence cfg"
      using True by (simp add: low_confidence_def)
    have "recover_texts cfg caps img (a # ls)
      = Inr (?texts, map text_warning (filter (low_confidence cfg caps img) (a # ls)))"
      using True r Cons.prems
      by (simp add: recoverText_cases low text_warning_def)
    moreover have "\<forall>l \<in> set (a # ls). l_kind l = TextBlock \<longrightarrow> distinct (map l_id (a # ls)) \<longrightarrow>
           ?texts (l_id l) = Some (fst (recognizeText caps img l))"
      using t by (auto simp: image_iff)
    ultimately show ?thesis by blast
  qed
qed

lemma recover_texts_strict_fails:
  "\<not> returnPartialOnError cfg \<Longrightarrow> \<exists>l \<in> set ls. low_confidence cfg caps img l \<Longrightarrow>
   recover_texts cfg caps img ls = Inl OcrLowConfidence"
proof (induction ls)
  case Nil
  then show ?case by simp
next
  case (Cons a ls)
  show ?case
  proof (cases "low_confidence cfg caps img a")
    case True
    then have "l_kind a = TextBlock" "snd (recognizeText caps img a) < minOcrConfidence cfg"
      by (simp_all add: low_confidence_def)
    then show ?thesis using Cons.prems(1) by (simp add: recoverText_cases)
  next
    case False
    with Cons.prems have "\<exists>l \<in> set ls. low_confidence cfg caps img l" by auto
    with Cons have r: "recover_texts cfg caps img ls = Inl OcrLowConfidence" by simp
    from False have "l_kind a = TextBlock \<Longrightarrow> \<not> snd (recognizeText caps img a) < minOcrConfidence cfg"
      by (simp add: low_confidence_def)
    then show ?thesis using r by (auto simp: recoverText_cases)
  qed
qed

lemma recover_tables_warnings:
  "snd (recover_tables cfg caps img ls) = map table_warning (filter (ambiguous cfg caps img) ls)"
proof (induction ls)
  case Nil
  then show ?case by simp
next
  case (Cons a ls)
  have amb: "ambiguous cfg caps img a \<longleftrightarrow>
     l_kind a = Table \<and> snd (recognizeTableLines caps img a) > tableStructureTolerance cfg"
    by (simp add: ambiguous_def)
  show ?case using Cons
    by (auto simp: recoverTable_cases amb table_warning_def split: prod.splits)
qed

lemma low_confidence_iff:
  "low_confidence cfg caps img l \<longleftrightarrow>
     l_kind l = TextBlock \<and> recoverText cfg caps img l = Inl OcrLowConfidence"
  by (simp add: low_confidence_def recoverText_cases)

lemma filter_only:
  assumes "distinct xs" "x \<in> set xs" "P x" "\<And>y. y \<in> set xs \<Longrightarrow> P y \<Longrightarrow> y = x"
  shows "filter P xs = [x]"
proof -
  from assms(2) obtain ys zs where xs: "xs = ys @ x # zs" by (auto simp: in_set_conv_decomp)
  have "\<not> P y" if "y \<in> set ys \<union> set zs" for y
  proof
    assume "P y"
    moreover from that xs have "y \<in> set xs" by auto
    ultimately have "y = x" by (rule assms(4) [rotated])
    with that xs assms(1) show False by auto
  qed
  then have "filter P ys = []" "filter P zs = []" by (simp_all add: filter_empty_conv)
  with xs assms(3) show ?thesis by simp
qed

lemma same_id_same_leaf:
  assumes "distinct (map l_id ls)" "l \<in> set ls" "l' \<in> set ls" "l_id l' = l_id l"
  shows "l' = l"
proof -
  from assms(1) have "inj_on l_id (set ls)" by (simp add: distinct_map)
  from inj_onD [OF this assms(4) assms(3) assms(2)] show ?thesis .
qed

lemma export_slide_Inr:
  "recover_texts cfg caps img (leaves tree) = Inr (texts, tws) \<Longrightarrow>
   export_slide cfg caps img tree bg
     = Inr (assemble (demote cfg caps img tree) texts
              (fst (recover_tables cfg caps img (leaves tree))) bg,
            tws @ map table_warning (filter (ambiguous cfg caps img) (leaves tree)))"
  using recover_tables_warnings [of cfg caps img "leaves tree"]
  by (auto simp: export_slide_def split: prod.splits)

lemma export_slide_Inl:
  "recover_texts cfg caps img (leaves tree) = Inl e \<Longrightarrow>
   export_slide cfg caps img tree bg = Inl e"
  by (simp add: export_slide_def)

lemmas sample_defs = sample_backdrop_def sample_title_def sample_caption_def sample_grid_def
  sample_photo_def

lemma leaves_sample:
  "leaves sample_tree = [sample_backdrop, sample_title, sample_grid, sample_photo, sample_caption]"
  by (simp add: sample_tree_def)

lemma distinct_sample: "distinct (region_ids sample_tree)"
  by (simp add: region_ids_def leaves_sample) (simp add: sample_tree_def sample_defs)

lemma sorted_sample:
  "sort_key l_z (leaves sample_tree)
     = [sample_backdrop, sample_photo, sample_title, sample_grid, sample_caption]"
  by (simp add: leaves_sample sample_defs)

lemma sources_sample:
  "map el_source (doc_elements (assemble sample_tree texts tables bg)) = [5, 1, 4, 2]"
  by (simp add: assemble_def sorted_sample List.map_filter_simps place_def placed_at_def
      sample_defs)

lemma sample_caption_low:
  "sample_caption \<in> set (leaves sample_tree)" "l_kind sample_caption = TextBlock"
  "recoverText cfg sample_caps sample_image sample_caption
     = (if 1/5 < minOcrConfidence cfg then Inl OcrLowConfidence else Inr plain_style)"
  by (simp_all add: leaves_sample recoverText_cases sample_caps_def)
     (simp_all add: sample_caption_def)

lemma sample_caption_only:
  "minOcrConfidence cfg = 1/2 \<Longrightarrow>
   \<forall>l' \<in> set (leaves sample_tree).
     l_kind l' = TextBlock \<and> recoverText cfg sample_caps sample_image l' = Inl OcrLowConfidence
       \<longrightarrow> l' = sample_caption"
  by (simp add: leaves_sample recoverText_cases sample_caps_def) (simp add: sample_defs)

text \<open>
  C1. For every Region tree, \<^verbatim>\<open>assemble\<close> lists the elements in ascending z-order and
  emits exactly one placed element for every leaf Region whose kind is not Background, and
  no element for a Group region:
  \<^item> the multiset of the regions the elements come from is the multiset of the ids of the
    leaves that are not Background;
  \<^item> the elements are the placements, in order, of a rearrangement of those leaves that
    ascends in z-order;
  \<^item> when no id occurs twice in the tree, every leaf that is not Background is the source
    of exactly one element, a Background leaf of none, and a Group region of none.
\<close>

theorem assemble_emits_each_leaf_once:
  "mset (map el_source (doc_elements (assemble tree texts tables bg)))
     = mset (map l_id (emitted tree))
   \<and> (\<exists>ls. mset ls = mset (emitted tree) \<and> sorted (map l_z ls)
         \<and> map Some (doc_elements (assemble tree texts tables bg))
             = map (place texts tables bg) ls)
   \<and> (distinct (region_ids tree) \<longrightarrow>
        (\<forall>l \<in> set (leaves tree).
            length (filter (\<lambda>e. el_source e = l_id l)
                      (doc_elements (assemble tree texts tables bg)))
              = (if l_kind l = Background then 0 else 1))
        \<and> (\<forall>g \<in> set (group_ids tree).
              filter (\<lambda>e. el_source e = g) (doc_elements (assemble tree texts tables bg)) = []))"
proof -
  let ?els = "doc_elements (assemble tree texts tables bg)"
  have src: "map el_source ?els = map l_id (sort_key l_z (emitted tree))"
    by (rule sources_assemble)
  have m: "mset (map el_source ?els) = mset (map l_id (emitted tree))"
    by (simp add: src)
  have "mset (sort_key l_z (emitted tree)) = mset (emitted tree)"
    "sorted (map l_z (sort_key l_z (emitted tree)))"
    "map Some ?els = map (place texts tables bg) (sort_key l_z (emitted tree))"
    by (simp_all add: assemble_def map_filter_place_Some emitted_def filter_sort)
  then have z: "\<exists>ls. mset ls = mset (emitted tree) \<and> sorted (map l_z ls)
         \<and> map Some ?els = map (place texts tables bg) ls"
    by blast
  have cnt: "length (filter (\<lambda>e. el_source e = i) ?els)
               = length (filter (\<lambda>l. l_id l = i) (emitted tree))" for i
  proof -
    have "length (filter (\<lambda>e. el_source e = i) ?els) = count (mset (map el_source ?els)) i"
      by (rule length_filter_count)
    also have "\<dots> = count (mset (map l_id (emitted tree))) i" by (simp only: m)
    also have "\<dots> = length (filter (\<lambda>l. l_id l = i) (emitted tree))"
      by (rule length_filter_count [symmetric])
    finally show ?thesis .
  qed
  have d: "(\<forall>l \<in> set (leaves tree).
            length (filter (\<lambda>e. el_source e = l_id l) ?els)
              = (if l_kind l = Background then 0 else 1))
        \<and> (\<forall>g \<in> set (group_ids tree). filter (\<lambda>e. el_source e = g) ?els = [])"
    if dist: "distinct (region_ids tree)"
  proof -
    from dist have dl: "distinct (map l_id (leaves tree))"
      and dg: "set (group_ids tree) \<inter> l_id ` set (leaves tree) = {}"
      by (auto simp: region_ids_def)
    have de: "distinct (map l_id (emitted tree))"
      unfolding emitted_def using dl by (simp add: distinct_map_filter)
    have leaf: "length (filter (\<lambda>e. el_source e = l_id l) ?els)
              = (if l_kind l = Background then 0 else 1)" if l: "l \<in> set (leaves tree)" for l
    proof (cases "l_kind l = Background")
      case True
      have "l' \<in> set (emitted tree) \<Longrightarrow> l_id l' \<noteq> l_id l" for l'
      proof
        assume a: "l' \<in> set (emitted tree)" "l_id l' = l_id l"
        then have "l' \<in> set (leaves tree)" by (simp add: emitted_def)
        with dl l a(2) have "l' = l" by (meson distinct_map inj_onD)
        with a(1) True show False by (simp add: emitted_def)
      qed
      then have "filter (\<lambda>l'. l_id l' = l_id l) (emitted tree) = []"
        by (auto simp: filter_empty_conv)
      with True show ?thesis by (simp add: cnt)
    next
      case False
      with l have "l \<in> set (emitted tree)" by (simp add: emitted_def)
      from count_one [OF de this] False show ?thesis by (simp add: cnt)
    qed
    have grp: "filter (\<lambda>e. el_source e = g) ?els = []" if g: "g \<in> set (group_ids tree)" for g
    proof -
      have "g \<notin> l_id ` set (emitted tree)" using dg g by (auto simp: emitted_def)
      then have "filter (\<lambda>l. l_id l = g) (emitted tree) = []"
        by (auto simp: filter_empty_conv)
      then have "length (filter (\<lambda>e. el_source e = g) ?els) = 0" by (simp add: cnt)
      then show ?thesis by simp
    qed
    from leaf grp show ?thesis by blast
  qed
  from m z d show ?thesis by blast
qed

theorem assemble_emits_each_leaf_once_witness:
  "distinct (region_ids sample_tree)
   \<and> map el_source (doc_elements (assemble sample_tree Map.empty Map.empty sample_plate))
       = [5, 1, 4, 2]
   \<and> length (filter (\<lambda>e. el_source e = l_id sample_grid)
         (doc_elements (assemble sample_tree Map.empty Map.empty sample_plate))) = 1
   \<and> length (filter (\<lambda>e. el_source e = l_id sample_backdrop)
         (doc_elements (assemble sample_tree Map.empty Map.empty sample_plate))) = 0
   \<and> filter (\<lambda>e. el_source e = 3)
         (doc_elements (assemble sample_tree Map.empty Map.empty sample_plate)) = []"
  using assemble_emits_each_leaf_once [of sample_tree Map.empty Map.empty sample_plate]
    distinct_sample sources_sample [of Map.empty Map.empty sample_plate]
  by (simp add: leaves_sample sample_tree_def) (simp add: sample_defs)

text \<open>
  C5. Let exactly one text region \<open>l\<close> of a tree (with no id twice) have an OCR
  confidence below the threshold. With \<^verbatim>\<open>returnPartialOnError\<close> the export of the slide
  completes, exactly one of its warnings refers to the id of \<open>l\<close> (the
  \<^verbatim>\<open>OcrLowConfidence\<close> warning of text recovery), and the document has an element for
  \<open>l\<close> (exactly one: a TextBlock with the best-effort text). Without
  \<^verbatim>\<open>returnPartialOnError\<close> the slide fails with \<^verbatim>\<open>OcrLowConfidence\<close>.
\<close>

theorem low_confidence_text_warned_once:
  assumes ids: "distinct (region_ids tree)"
    and l: "l \<in> set (leaves tree)" "l_kind l = TextBlock"
    and low: "recoverText cfg caps img l = Inl OcrLowConfidence"
    and only: "\<forall>l' \<in> set (leaves tree).
        l_kind l' = TextBlock \<and> recoverText cfg caps img l' = Inl OcrLowConfidence \<longrightarrow> l' = l"
  shows "(returnPartialOnError cfg \<longrightarrow>
           (\<exists>doc ws. export_slide cfg caps img tree bg = Inr (doc, ws)
              \<and> filter (\<lambda>w. w_region w = l_id l) ws
                  = [\<lparr> w_region = l_id l, w_stage = TextRecovery, w_reason = OcrLowConfidence \<rparr>]
              \<and> filter (\<lambda>e. el_source e = l_id l) (doc_elements doc)
                  = [placed_at bg l (TextBlockEl (Some (fst (recognizeText caps img l))))]))
       \<and> (\<not> returnPartialOnError cfg \<longrightarrow>
            export_slide cfg caps img tree bg = Inl OcrLowConfidence)"
proof -
  let ?ls = "leaves tree"
  from ids have dl: "distinct (map l_id ?ls)" by (simp add: region_ids_def)
  then have dls: "distinct ?ls" by (simp add: distinct_map)
  have lowl: "low_confidence cfg caps img l" using l low by (simp add: low_confidence_iff)
  have strict: "export_slide cfg caps img tree bg = Inl OcrLowConfidence"
    if "\<not> returnPartialOnError cfg"
    using recover_texts_strict_fails [OF that, of ?ls caps img] l(1) lowl
    by (auto intro: export_slide_Inl)
  have partial: "\<exists>doc ws. export_slide cfg caps img tree bg = Inr (doc, ws)
              \<and> filter (\<lambda>w. w_region w = l_id l) ws
                  = [\<lparr> w_region = l_id l, w_stage = TextRecovery, w_reason = OcrLowConfidence \<rparr>]
              \<and> filter (\<lambda>e. el_source e = l_id l) (doc_elements doc)
                  = [placed_at bg l (TextBlockEl (Some (fst (recognizeText caps img l))))]"
    if rp: "returnPartialOnError cfg"
  proof -
    from recover_texts_partial [OF rp, of caps img ?ls] obtain texts where
      r: "recover_texts cfg caps img ?ls
            = Inr (texts, map text_warning (filter (low_confidence cfg caps img) ?ls))"
      and t: "\<forall>l \<in> set ?ls. l_kind l = TextBlock \<longrightarrow> distinct (map l_id ?ls) \<longrightarrow>
           texts (l_id l) = Some (fst (recognizeText caps img l))"
      by blast
    have onlyl: "y = l" if "y \<in> set ?ls" "low_confidence cfg caps img y" for y
      using only that by (simp add: low_confidence_iff)
    have f: "filter (low_confidence cfg caps img) ?ls = [l]"
      using dls l(1) lowl onlyl
      by (rule filter_only [where P = "low_confidence cfg caps img"])
    let ?tables = "fst (recover_tables cfg caps img ?ls)"
    let ?doc = "assemble (demote cfg caps img tree) texts ?tables bg"
    let ?ws = "[text_warning l] @ map table_warning (filter (ambiguous cfg caps img) ?ls)"
    have e: "export_slide cfg caps img tree bg = Inr (?doc, ?ws)"
      using export_slide_Inr [OF r] f by simp
    have "l_id l' \<noteq> l_id l" if "l' \<in> set ?ls" "ambiguous cfg caps img l'" for l'
    proof
      assume "l_id l' = l_id l"
      with same_id_same_leaf [OF dl l(1) that(1)] have "l' = l" by simp
      with that(2) l(2) show False by (simp add: ambiguous_def)
    qed
    then have "filter (\<lambda>w. w_region w = l_id l)
                 (map table_warning (filter (ambiguous cfg caps img) ?ls)) = []"
      by (auto simp: filter_empty_conv table_warning_def)
    then have w: "filter (\<lambda>w. w_region w = l_id l) ?ws
        = [\<lparr> w_region = l_id l, w_stage = TextRecovery, w_reason = OcrLowConfidence \<rparr>]"
      by (simp add: text_warning_def)
    have dd: "distinct (map l_id (leaves (demote cfg caps img tree)))"
      using dl by (simp add: ids_leaves_demote)
    have "demote_leaf cfg caps img l = l" using l(2) by (simp add: demote_leaf_def)
    then have ld: "l \<in> set (leaves (demote cfg caps img tree))"
      using l(1) by (force simp: leaves_demote)
    have tl: "texts (l_id l) = Some (fst (recognizeText caps img l))" using t l dl by blast
    have "place texts ?tables bg l = Some (placed_at bg l (TextBlockEl (texts (l_id l))))"
      using l(2) by (simp add: place_def)
    then have "List.map_filter (place texts ?tables bg) [l]
                 = [placed_at bg l (TextBlockEl (texts (l_id l)))]"
      by (simp add: List.map_filter_simps)
    then have el: "filter (\<lambda>e. el_source e = l_id l) (doc_elements ?doc)
        = [placed_at bg l (TextBlockEl (Some (fst (recognizeText caps img l))))]"
      using element_of_leaf [OF dd ld, of texts ?tables bg] by (simp only: tl)
    show ?thesis
      by (intro exI [of _ ?doc] exI [of _ ?ws] conjI e w el)
  qed
  show ?thesis
  proof (intro conjI impI)
    assume "returnPartialOnError cfg"
    then show "\<exists>doc ws. export_slide cfg caps img tree bg = Inr (doc, ws)
              \<and> filter (\<lambda>w. w_region w = l_id l) ws
                  = [\<lparr> w_region = l_id l, w_stage = TextRecovery, w_reason = OcrLowConfidence \<rparr>]
              \<and> filter (\<lambda>e. el_source e = l_id l) (doc_elements doc)
                  = [placed_at bg l (TextBlockEl (Some (fst (recognizeText caps img l))))]"
      by (rule partial)
  next
    assume "\<not> returnPartialOnError cfg"
    then show "export_slide cfg caps img tree bg = Inl OcrLowConfidence" by (rule strict)
  qed
qed

theorem low_confidence_text_warned_once_witness:
  "recoverText sample_cfg sample_caps sample_image sample_caption = Inl OcrLowConfidence
   \<and> returnPartialOnError sample_cfg
   \<and> (\<exists>doc ws.
          export_slide sample_cfg sample_caps sample_image sample_tree sample_plate = Inr (doc, ws)
          \<and> filter (\<lambda>w. w_region w = 2) ws
              = [\<lparr> w_region = 2, w_stage = TextRecovery, w_reason = OcrLowConfidence \<rparr>]
          \<and> filter (\<lambda>e. el_source e = 2) (doc_elements doc)
              = [placed_at sample_plate sample_caption (TextBlockEl (Some plain_style))])
   \<and> export_slide (sample_cfg\<lparr> returnPartialOnError := False \<rparr>) sample_caps sample_image
         sample_tree sample_plate = Inl OcrLowConfidence"
proof -
  have low: "recoverText cfg sample_caps sample_image sample_caption = Inl OcrLowConfidence"
    if "minOcrConfidence cfg = 1/2" for cfg
    using that by (simp add: sample_caption_low(3))
  have a: "minOcrConfidence sample_cfg = 1/2" "returnPartialOnError sample_cfg"
    and b: "minOcrConfidence (sample_cfg\<lparr> returnPartialOnError := False \<rparr>) = 1/2"
      "\<not> returnPartialOnError (sample_cfg\<lparr> returnPartialOnError := False \<rparr>)"
    by (simp_all add: sample_cfg_def)
  have g: "fst (recognizeText sample_caps sample_image sample_caption) = plain_style"
    "l_id sample_caption = 2"
    by (simp_all add: sample_caps_def sample_caption_def)
  from low_confidence_text_warned_once [OF distinct_sample sample_caption_low(1,2)
      low [OF a(1)] sample_caption_only [OF a(1)], of sample_plate]
    low_confidence_text_warned_once [OF distinct_sample sample_caption_low(1,2)
      low [OF b(1)] sample_caption_only [OF b(1)], of sample_plate]
    low [OF a(1)] a(2) b(2)
  show ?thesis by (simp add: g)
qed

end
